theory Spec2Isabelle
  imports Complex_Main "HOL-Library.Multiset" "HOL-Library.Product_Lexorder"
begin

section \<open>The embedded adaptive-search server (public/nodejs/index.js)\<close>

text \<open>
  JavaScript numbers are modelled as real numbers: rounding of IEEE doubles and the
  infinities are outside the model. \<open>NaN\<close> is modelled (by \<open>None\<close>) exactly
  where the source tests for it, at the parsed coordinates of a request. An absent
  (\<open>undefined\<close>) property of a JSON object is \<open>None\<close>.
\<close>

subsection \<open>Data\<close>

text \<open>A tile of the work queue: \<open>{ lat, lng, radius, depth }\<close>.\<close>

record tile =
  lat :: real
  lng :: real
  radius :: real
  depth :: nat

text \<open>The \<open>location\<close> object of a place: \<open>{ latitude, longitude }\<close>.\<close>

record latLng =
  latitude :: "real option"
  longitude :: "real option"

text \<open>
  A place as the provider returns it. \<open>displayName\<close> is an object with an optional
  \<open>text\<close>, \<open>regularOpeningHours\<close> an object with an optional
  \<open>weekdayDescriptions\<close>: the outer option is the object, the inner one its property.
  Every element of a response is taken to be an object whose \<open>id\<close> is a string.
\<close>

record place =
  p_id :: string
  p_displayName :: "string option option"
  p_primaryType :: "string option"
  p_location :: "latLng option"
  p_formattedAddress :: "string option"
  p_rating :: "real option"
  p_userRatingCount :: "real option"
  p_regularOpeningHours :: "string list option option"
  p_googleMapsUri :: "string option"

text \<open>The record stored in \<open>seenPlaces\<close> (lines 118-128).\<close>

record seenPlace =
  s_id :: string
  s_name :: string
  s_type :: "string option"
  s_location :: "latLng option"
  s_address :: "string option"
  s_rating :: real
  s_reviewCount :: real
  s_openingHours :: "string list"
  s_googleMapsUri :: "string option"

text \<open>
  What makes \<open>searchNearby\<close> throw: the missing API key (line 72), the request
  timeout (line 62) and any other error of the request (line 59).
\<close>

datatype error = ApiKeyNotConfigured | RequestTimeout | TransportError string

text \<open>
  The provider behind \<open>httpsRequest\<close>. It is given the number of the call within the
  traversal and the body of the request (centre, radius, types), and either fails or
  resolves to a response whose \<open>places\<close> property may be absent. Since every call of a
  traversal has its own number, a function of this type describes any sequence of
  answers a provider can give.
\<close>

type_synonym provider = "nat \<Rightarrow> real \<Rightarrow> real \<Rightarrow> real \<Rightarrow> string list \<Rightarrow> error + place list option"

text \<open>The loop state of \<open>adaptiveTilingSearch\<close>: \<open>queue\<close>, \<open>apiCalls\<close>, \<open>seenPlaces\<close>.
  A JavaScript \<open>Map\<close> iterates in insertion order, so the registry is an association
  list that grows at its end.\<close>

record state =
  queue :: "tile list"
  apiCalls :: nat
  seenPlaces :: "(string \<times> seenPlace) list"

record metrics =
  m_apiCalls :: nat
  m_uniquePlaces :: nat

record searchResult =
  places :: "seenPlace list"
  metrics :: metrics

subsection \<open>searchNearby (lines 70-98)\<close>

text \<open>\<open>!apiKey\<close> holds for \<open>null\<close> and for the empty string.\<close>

definition noApiKey :: "string option \<Rightarrow> bool" where
  "noApiKey apiKey = (case apiKey of None \<Rightarrow> True | Some k \<Rightarrow> k = [])"

definition searchNearby ::
  "string option \<Rightarrow> provider \<Rightarrow> nat \<Rightarrow> real \<Rightarrow> real \<Rightarrow> real \<Rightarrow> string list \<Rightarrow> error + place list" where
  "searchNearby apiKey https n lat' lng' radius' types =
     (if noApiKey apiKey then Inl ApiKeyNotConfigured
      else case https n lat' lng' radius' types of
             Inl err \<Rightarrow> Inl err
           | Inr response \<Rightarrow> Inr (case response of None \<Rightarrow> [] | Some ps \<Rightarrow> ps))"

subsection \<open>adaptiveTilingSearch (lines 101-152)\<close>

definition MIN_RADIUS :: real where
  "MIN_RADIUS = 500"

definition MAX_DEPTH :: nat where
  "MAX_DEPTH = 5"

text \<open>The literal \<open>200\<close> of the loop condition (line 109) and the literal \<open>20\<close> of the
  subdivision test (line 133), under the names the release notes give them.\<close>

definition MAX_API_CALLS :: nat where
  "MAX_API_CALLS = 200"

definition MAX_RESULT_COUNT :: nat where
  "MAX_RESULT_COUNT = 20"

text \<open>The record built for a place seen for the first time. \<open>x || d\<close> yields \<open>d\<close>
  when \<open>x\<close> is absent, the empty string or \<open>0\<close>.\<close>

definition toSeenPlace :: "place \<Rightarrow> seenPlace" where
  "toSeenPlace p =
     \<lparr> s_id = p_id p,
       s_name = (case p_displayName p of
                   Some (Some t) \<Rightarrow> if t = [] then ''Unknown'' else t
                 | _ \<Rightarrow> ''Unknown''),
       s_type = p_primaryType p,
       s_location = p_location p,
       s_address = p_formattedAddress p,
       s_rating = (case p_rating p of None \<Rightarrow> 0 | Some r \<Rightarrow> r),
       s_reviewCount = (case p_userRatingCount p of None \<Rightarrow> 0 | Some c \<Rightarrow> c),
       s_openingHours = (case p_regularOpeningHours p of
                           Some (Some ds) \<Rightarrow> ds
                         | _ \<Rightarrow> []),
       s_googleMapsUri = p_googleMapsUri p \<rparr>"

text \<open>\<open>seenPlaces.has(id)\<close>.\<close>

definition has :: "(string \<times> seenPlace) list \<Rightarrow> string \<Rightarrow> bool" where
  "has seen i = (map_of seen i \<noteq> None)"

text \<open>The body of the loop over \<open>places\<close> (lines 117-129): a new key is appended.\<close>

definition addPlace :: "(string \<times> seenPlace) list \<Rightarrow> place \<Rightarrow> (string \<times> seenPlace) list" where
  "addPlace seen p = (if \<not> has seen (p_id p) then seen @ [(p_id p, toSeenPlace p)] else seen)"

text \<open>The four children pushed in lines 134-141, in the order of the pushes.\<close>

definition subdivide :: "tile \<Rightarrow> tile list" where
  "subdivide t =
     (let childRadius = radius t / 2;
          offset = childRadius * (7 / 10) / 111320;
          lngOffset = offset / cos (lat t * pi / 180)
      in [ \<lparr> lat = lat t + offset, lng = lng t - lngOffset, radius = childRadius, depth = depth t + 1 \<rparr>,
           \<lparr> lat = lat t + offset, lng = lng t + lngOffset, radius = childRadius, depth = depth t + 1 \<rparr>,
           \<lparr> lat = lat t - offset, lng = lng t - lngOffset, radius = childRadius, depth = depth t + 1 \<rparr>,
           \<lparr> lat = lat t - offset, lng = lng t + lngOffset, radius = childRadius, depth = depth t + 1 \<rparr> ])"

text \<open>
  One iteration of the loop (lines 110-145), for the tile \<open>t\<close> just shifted off the
  queue and the rest of the queue. The counter is incremented first; the call is made
  with the new count as its number; a thrown error is caught and leaves the registry
  and the rest of the queue as they are.
\<close>

definition processTile ::
  "string option \<Rightarrow> provider \<Rightarrow> string list \<Rightarrow> tile \<Rightarrow> tile list \<Rightarrow> state \<Rightarrow> state" where
  "processTile apiKey https types t rest s =
     (let calls = apiCalls s + 1 in
      case searchNearby apiKey https calls (lat t) (lng t) (radius t) types of
        Inl err \<Rightarrow> \<lparr> queue = rest, apiCalls = calls, seenPlaces = seenPlaces s \<rparr>
      | Inr ps \<Rightarrow>
          \<lparr> queue = (if length ps \<ge> 20 \<and> radius t > MIN_RADIUS \<and> depth t < MAX_DEPTH
                     then rest @ subdivide t else rest),
            apiCalls = calls,
            seenPlaces = foldl addPlace (seenPlaces s) ps \<rparr>)"

lemma apiCalls_processTile:
  "apiCalls (processTile apiKey https types t rest s) = apiCalls s + 1"
  by (simp add: processTile_def Let_def split: sum.split)

text \<open>The loop of line 109.\<close>

function tilingLoop :: "string option \<Rightarrow> provider \<Rightarrow> string list \<Rightarrow> state \<Rightarrow> state" where
  "tilingLoop apiKey https types s =
     (case queue s of
        [] \<Rightarrow> s
      | t # rest \<Rightarrow>
          if apiCalls s < 200
          then tilingLoop apiKey https types (processTile apiKey https types t rest s)
          else s)"
  by pat_completeness auto
termination
  by (relation "measure (\<lambda>(apiKey, https, types, s). 200 - apiCalls s)")
     (auto simp: apiCalls_processTile)

declare tilingLoop.simps [simp del]

definition initialState :: "real \<Rightarrow> real \<Rightarrow> real \<Rightarrow> state" where
  "initialState lat' lng' radiusMeters =
     \<lparr> queue = [\<lparr> lat = lat', lng = lng', radius = radiusMeters, depth = 0 \<rparr>],
       apiCalls = 0,
       seenPlaces = [] \<rparr>"

definition adaptiveTilingSearch ::
  "string option \<Rightarrow> provider \<Rightarrow> real \<Rightarrow> real \<Rightarrow> real \<Rightarrow> string list \<Rightarrow> searchResult" where
  "adaptiveTilingSearch apiKey https lat' lng' radiusMeters types =
     (let final = tilingLoop apiKey https types (initialState lat' lng' radiusMeters)
      in \<lparr> places = map snd (seenPlaces final),
           metrics = \<lparr> m_apiCalls = apiCalls final,
                       m_uniquePlaces = length (seenPlaces final) \<rparr> \<rparr>)"

subsection \<open>Observing a traversal\<close>

text \<open>
  One turn of the loop as a partial step: \<open>None\<close> when the loop condition of line 109
  fails, the state after the body otherwise.
\<close>

definition loopStep :: "string option \<Rightarrow> provider \<Rightarrow> string list \<Rightarrow> state \<Rightarrow> state option" where
  "loopStep apiKey https types s =
     (case queue s of
        [] \<Rightarrow> None
      | t # rest \<Rightarrow>
          if apiCalls s < 200 then Some (processTile apiKey https types t rest s) else None)"

text \<open>\<open>exitsAfter \<dots> n s\<close> is the state in which the loop started in \<open>s\<close> leaves
  after exactly \<open>n\<close> iterations, if it does.\<close>

fun exitsAfter ::
  "string option \<Rightarrow> provider \<Rightarrow> string list \<Rightarrow> nat \<Rightarrow> state \<Rightarrow> state option" where
  "exitsAfter apiKey https types 0 s =
     (case loopStep apiKey https types s of None \<Rightarrow> Some s | Some s' \<Rightarrow> None)"
| "exitsAfter apiKey https types (Suc n) s =
     (case loopStep apiKey https types s of
        None \<Rightarrow> None
      | Some s' \<Rightarrow> exitsAfter apiKey https types n s')"

text \<open>
  The answers a traversal receives, one list per processed tile, in the order of
  processing; a failed query contributes the empty list.
\<close>

function returned ::
  "string option \<Rightarrow> provider \<Rightarrow> string list \<Rightarrow> state \<Rightarrow> place list list" where
  "returned apiKey https types s =
     (case queue s of
        [] \<Rightarrow> []
      | t # rest \<Rightarrow>
          if apiCalls s < 200
          then (case searchNearby apiKey https (apiCalls s + 1) (lat t) (lng t) (radius t) types of
                  Inl err \<Rightarrow> []
                | Inr ps \<Rightarrow> ps)
               # returned apiKey https types (processTile apiKey https types t rest s)
          else [])"
  by pat_completeness auto
termination
  by (relation "measure (\<lambda>(apiKey, https, types, s). 200 - apiCalls s)")
     (auto simp: apiCalls_processTile)

declare returned.simps [simp del]

text \<open>
  The distance in metres between the centre of a parent tile and the centre of another
  tile, under the conversion the subdivision uses: a degree of latitude is 111320 m,
  and a degree of longitude is 111320 m times the cosine of the parent's latitude.
\<close>

definition centerDistance :: "tile \<Rightarrow> tile \<Rightarrow> real" where
  "centerDistance parent child =
     sqrt (((lat child - lat parent) * 111320)\<^sup>2 +
           ((lng child - lng parent) * 111320 * cos (lat parent * pi / 180))\<^sup>2)"

subsection \<open>The rate limiter (lines 15-31)\<close>

record rateData =
  rl_count :: nat
  rl_windowStart :: int

definition RATE_LIMIT :: nat where
  "RATE_LIMIT = 100"

definition WINDOW_MS :: int where
  "WINDOW_MS = 60 * 60 * 1000"

definition checkRateLimit ::
  "(string \<rightharpoonup> rateData) \<Rightarrow> int \<Rightarrow> string \<Rightarrow> bool \<times> (string \<rightharpoonup> rateData)" where
  "checkRateLimit store now ip =
     (case store ip of
        None \<Rightarrow> (True, store(ip \<mapsto> \<lparr> rl_count = 1, rl_windowStart = now \<rparr>))
      | Some data \<Rightarrow>
          if now - rl_windowStart data > WINDOW_MS
          then (True, store(ip \<mapsto> \<lparr> rl_count = 1, rl_windowStart = now \<rparr>))
          else (rl_count data + 1 \<le> RATE_LIMIT,
                store(ip \<mapsto> data\<lparr> rl_count := rl_count data + 1 \<rparr>)))"

subsection \<open>calculateDistance and formatPlace (lines 34-43, 155-177)\<close>

text \<open>\<open>Math.atan2(y, x)\<close> and \<open>Math.round\<close>.\<close>

definition atan2 :: "real \<Rightarrow> real \<Rightarrow> real" where
  "atan2 y x =
     (if x > 0 then arctan (y / x)
      else if x < 0 then (if y \<ge> 0 then arctan (y / x) + pi else arctan (y / x) - pi)
      else if y > 0 then pi / 2
      else if y < 0 then - pi / 2
      else 0)"

definition jsRound :: "real \<Rightarrow> real" where
  "jsRound x = of_int \<lfloor>x + 1 / 2\<rfloor>"

definition calculateDistance :: "real \<Rightarrow> real \<Rightarrow> real \<Rightarrow> real \<Rightarrow> real" where
  "calculateDistance lat1 lng1 lat2 lng2 =
     (let R = 6371;
          dLat = (lat2 - lat1) * pi / 180;
          dLng = (lng2 - lng1) * pi / 180;
          a = sin (dLat / 2) * sin (dLat / 2) +
              cos (lat1 * pi / 180) * cos (lat2 * pi / 180) *
              sin (dLng / 2) * sin (dLng / 2);
          c = 2 * atan2 (sqrt a) (sqrt (1 - a))
      in jsRound (R * c * 100) / 100)"

record formattedPlace =
  f_name :: string
  f_address :: string
  f_location :: "real \<times> real"
  f_rating :: real
  f_reviewCount :: real
  f_distance :: real
  f_openingHours :: "string list"
  f_googleMapsUrl :: string
  f_placeId :: string
  f_type :: "string option"

definition formatPlace :: "seenPlace \<Rightarrow> real \<Rightarrow> real \<Rightarrow> formattedPlace" where
  "formatPlace p searchLat searchLng =
     (let lat' = (case s_location p of
                    None \<Rightarrow> 0
                  | Some l \<Rightarrow> (case latitude l of None \<Rightarrow> 0 | Some x \<Rightarrow> x));
          lng' = (case s_location p of
                    None \<Rightarrow> 0
                  | Some l \<Rightarrow> (case longitude l of None \<Rightarrow> 0 | Some x \<Rightarrow> x));
          hours = s_openingHours p;
          openingHours = (if length hours = 7 then (hours ! 6) # take 6 hours else hours)
      in \<lparr> f_name = s_name p,
           f_address = (case s_address p of None \<Rightarrow> [] | Some a \<Rightarrow> a),
           f_location = (lat', lng'),
           f_rating = s_rating p,
           f_reviewCount = s_reviewCount p,
           f_distance = calculateDistance searchLat searchLng lat' lng',
           f_openingHours = openingHours,
           f_googleMapsUrl = (case s_googleMapsUri p of
                                None \<Rightarrow> []
                              | Some u \<Rightarrow> if u = [] then [] else u @ ''?hl=he''),
           f_placeId = s_id p,
           f_type = s_type p \<rparr>)"

subsection \<open>The handler of /api/places/adaptive (lines 204-274)\<close>

text \<open>
  The parameters of a request after \<open>searchParams.get\<close>, \<open>parseFloat\<close> and
  \<open>parseInt\<close>. For \<open>latitude\<close> and \<open>longitude\<close>, \<open>None\<close> is the \<open>NaN\<close> that
  \<open>parseFloat\<close> yields for an absent or non-numeric parameter. For the other
  parameters \<open>None\<close> is an absent or empty parameter, replaced by its default before
  parsing, and \<open>Some\<close> carries the number (or the string) it parsed to; a radius or a
  threshold that parses to \<open>NaN\<close> is outside the model.
\<close>

record query =
  q_latitude :: "real option"
  q_longitude :: "real option"
  q_radius :: "real option"
  q_type :: "string option"
  q_minRating :: "real option"
  q_minReviews :: "int option"

text \<open>The body of the 200 response; \<open>success\<close> and \<open>method\<close> are constants.\<close>

record payload =
  r_location :: "real \<times> real"
  r_totalFound :: nat
  r_afterFilters :: nat
  r_places :: "formattedPlace list"
  r_metrics :: metrics

text \<open>
  The responses of the handler: 429, 400 \<open>API_KEY_NOT_SET\<close>, 400
  \<open>INVALID_COORDINATES\<close>, 200 and the 500 of the \<open>catch\<close> of line 268. Nothing in
  the modelled \<open>try\<close> block throws, so no path of the model ends in \<open>SearchFailed\<close>.
\<close>

datatype response =
  RateLimitExceeded
| ApiKeyNotSet
| InvalidCoordinates
| Success payload
| SearchFailed string

definition typeGroups :: "string \<Rightarrow> string list list" where
  "typeGroups type' =
     (if type' = ''restaurant'' then [[''restaurant'']]
      else if type' = ''cafe'' then [[''cafe'', ''coffee_shop'']]
      else [[''restaurant''], [''cafe'', ''coffee_shop'']])"

text \<open>The loop over the type groups (lines 239-243), with \<open>allPlaces\<close> and
  \<open>totalMetrics\<close> as its accumulators.\<close>

fun searchGroups ::
  "string option \<Rightarrow> provider \<Rightarrow> real \<Rightarrow> real \<Rightarrow> real \<Rightarrow> string list list \<Rightarrow>
   seenPlace list \<times> metrics \<Rightarrow> seenPlace list \<times> metrics" where
  "searchGroups apiKey https lat' lng' radiusMeters [] acc = acc"
| "searchGroups apiKey https lat' lng' radiusMeters (types # groups) (allPlaces, totalMetrics) =
     (let result = adaptiveTilingSearch apiKey https lat' lng' radiusMeters types
      in searchGroups apiKey https lat' lng' radiusMeters groups
           (allPlaces @ places result,
            totalMetrics\<lparr> m_apiCalls := m_apiCalls totalMetrics + m_apiCalls (metrics result) \<rparr>))"

text \<open>The filter of lines 246-251, with the set \<open>seen\<close> as its state.\<close>

fun dedupe :: "string set \<Rightarrow> seenPlace list \<Rightarrow> seenPlace list" where
  "dedupe seen [] = []"
| "dedupe seen (p # ps) =
     (if s_id p \<in> seen then dedupe seen ps else p # dedupe (insert (s_id p) seen) ps)"

text \<open>Lines 254-255: format, then filter by rating and review count.\<close>

definition formatAndFilter ::
  "real \<Rightarrow> real \<Rightarrow> real \<Rightarrow> int \<Rightarrow> seenPlace list \<Rightarrow> formattedPlace list" where
  "formatAndFilter lat' lng' minRating minReviews unique =
     filter (\<lambda>p. f_rating p \<ge> minRating \<and> f_reviewCount p \<ge> of_int minReviews)
       (map (\<lambda>p. formatPlace p lat' lng') unique)"

text \<open>The comparator of line 256: \<open>b.rating - a.rating || b.reviewCount - a.reviewCount\<close>.\<close>

definition comparePlaces :: "formattedPlace \<Rightarrow> formattedPlace \<Rightarrow> real" where
  "comparePlaces a b =
     (if f_rating b - f_rating a \<noteq> 0 then f_rating b - f_rating a
      else f_reviewCount b - f_reviewCount a)"

text \<open>
  \<open>Array.prototype.sort\<close> with a comparator is a stable sort: the result is ordered
  by the comparator, and elements that compare equal keep their order. It is modelled
  as the insertion sort that puts an element before the first one it does not compare
  greater than.
\<close>

fun insertBy :: "('a \<Rightarrow> 'a \<Rightarrow> real) \<Rightarrow> 'a \<Rightarrow> 'a list \<Rightarrow> 'a list" where
  "insertBy cmp x [] = [x]"
| "insertBy cmp x (y # ys) = (if cmp x y \<le> 0 then x # y # ys else y # insertBy cmp x ys)"

definition sortBy :: "('a \<Rightarrow> 'a \<Rightarrow> real) \<Rightarrow> 'a list \<Rightarrow> 'a list" where
  "sortBy cmp xs = foldr (insertBy cmp) xs []"

text \<open>The list the handler sorts: the places of all groups, deduplicated, formatted
  and filtered (lines 236-255).\<close>

definition filteredPlaces ::
  "string option \<Rightarrow> provider \<Rightarrow> real \<Rightarrow> real \<Rightarrow> query \<Rightarrow> formattedPlace list" where
  "filteredPlaces apiKey https lat' lng' q =
     (let radius' = (case q_radius q of None \<Rightarrow> 15 | Some r \<Rightarrow> r);
          type' = (case q_type q of None \<Rightarrow> ''both'' | Some t \<Rightarrow> if t = [] then ''both'' else t);
          minRating = (case q_minRating q of None \<Rightarrow> 45 / 10 | Some r \<Rightarrow> r);
          minReviews = (case q_minReviews q of None \<Rightarrow> 100 | Some n \<Rightarrow> n);
          radiusMeters = radius' * 1000;
          (allPlaces, totalMetrics) =
             searchGroups apiKey https lat' lng' radiusMeters (typeGroups type')
               ([], \<lparr> m_apiCalls = 0, m_uniquePlaces = 0 \<rparr>);
          unique = dedupe {} allPlaces
      in formatAndFilter lat' lng' minRating minReviews unique)"

definition handler ::
  "(string \<rightharpoonup> rateData) \<Rightarrow> int \<Rightarrow> string option \<Rightarrow> provider \<Rightarrow> query \<Rightarrow>
   response \<times> (string \<rightharpoonup> rateData)" where
  "handler store now apiKey https q =
     (let (allowed, store') = checkRateLimit store now ''local'' in
      if \<not> allowed then (RateLimitExceeded, store')
      else if noApiKey apiKey then (ApiKeyNotSet, store')
      else
        (let radius' = (case q_radius q of None \<Rightarrow> 15 | Some r \<Rightarrow> r);
             type' = (case q_type q of None \<Rightarrow> ''both'' | Some t \<Rightarrow> if t = [] then ''both'' else t);
             minRating = (case q_minRating q of None \<Rightarrow> 45 / 10 | Some r \<Rightarrow> r);
             minReviews = (case q_minReviews q of None \<Rightarrow> 100 | Some n \<Rightarrow> n)
         in case (q_latitude q, q_longitude q) of
              (Some lat', Some lng') \<Rightarrow>
                (let radiusMeters = radius' * 1000;
                     (allPlaces, totalMetrics) =
                        searchGroups apiKey https lat' lng' radiusMeters (typeGroups type')
                          ([], \<lparr> m_apiCalls = 0, m_uniquePlaces = 0 \<rparr>);
                     unique = dedupe {} allPlaces;
                     formatted = formatAndFilter lat' lng' minRating minReviews unique;
                     sorted' = sortBy comparePlaces formatted
                 in (Success \<lparr> r_location = (lat', lng'),
                               r_totalFound = length unique,
                               r_afterFilters = length sorted',
                               r_places = sorted',
                               r_metrics = totalMetrics \<rparr>,
                     store'))
            | _ \<Rightarrow> (InvalidCoordinates, store')))"

subsection \<open>Notions used in the proofs\<close>

text \<open>The number of tiles of the complete subdivision tree below a tile of depth \<open>d\<close>,
  the tile included, when the tree is cut at depth 5.\<close>

definition subtreeSize :: "nat \<Rightarrow> nat" where
  "subtreeSize d = (4 ^ (6 - d) - 1) div 3"

text \<open>
  The invariant of a traversal whose every query is answered with a full page, started
  on a tile of radius \<open>R\<close>: a queued tile of depth \<open>d\<close> has radius \<open>R / 2 ^ d\<close>, and the
  tiles still to be processed and the calls already made add up to the 1365 tiles of
  the complete tree.
\<close>

definition fullTree :: "real \<Rightarrow> state \<Rightarrow> bool" where
  "fullTree R s \<longleftrightarrow>
     list_all (\<lambda>t. depth t \<le> 5 \<and> radius t * 2 ^ depth t = R) (queue s) \<and>
     sum_list (map (\<lambda>t. subtreeSize (depth t)) (queue s)) + apiCalls s = 1365"

text \<open>A registry is well keyed when its keys are distinct and each record is stored
  under its own id.\<close>

definition keyed :: "(string \<times> seenPlace) list \<Rightarrow> bool" where
  "keyed seen \<longleftrightarrow> distinct (map fst seen) \<and> list_all (\<lambda>(k, v). s_id v = k) seen"

text \<open>The key that the comparator of line 256 orders by, lexicographically.\<close>

definition sortKey :: "formattedPlace \<Rightarrow> real \<times> real" where
  "sortKey p = (- f_rating p, - f_reviewCount p)"

subsection \<open>Example runs\<close>

definition placeA :: place where
  "placeA = \<lparr> p_id = ''a'', p_displayName = Some (Some ''first''),
               p_primaryType = Some ''restaurant'', p_location = None,
               p_formattedAddress = None, p_rating = Some (45 / 10),
               p_userRatingCount = Some 200, p_regularOpeningHours = None,
               p_googleMapsUri = None \<rparr>"

text \<open>A second sighting of the identity of \<open>placeA\<close>, with other attributes.\<close>

definition placeA' :: place where
  "placeA' = \<lparr> p_id = ''a'', p_displayName = Some (Some ''second''),
                p_primaryType = Some ''cafe'', p_location = None,
                p_formattedAddress = None, p_rating = Some 3,
                p_userRatingCount = Some 7, p_regularOpeningHours = None,
                p_googleMapsUri = None \<rparr>"

definition placeB :: place where
  "placeB = \<lparr> p_id = ''b'', p_displayName = Some (Some ''best''),
               p_primaryType = Some ''restaurant'', p_location = None,
               p_formattedAddress = None, p_rating = Some (48 / 10),
               p_userRatingCount = Some 150, p_regularOpeningHours = None,
               p_googleMapsUri = None \<rparr>"

definition placeC :: place where
  "placeC = \<lparr> p_id = ''c'', p_displayName = Some (Some ''third''),
               p_primaryType = Some ''restaurant'', p_location = None,
               p_formattedAddress = None, p_rating = Some (45 / 10),
               p_userRatingCount = Some 200, p_regularOpeningHours = None,
               p_googleMapsUri = None \<rparr>"

text \<open>A provider that answers the first call with a full page, fails on the second,
  answers the third with a second sighting of the same identity, and has nothing more.\<close>

definition demoProvider :: provider where
  "demoProvider n a b r types =
     (if n = 1 then Inr (Some (replicate 20 placeA))
      else if n = 2 then Inl RequestTimeout
      else if n = 3 then Inr (Some [placeA'])
      else Inr None)"

text \<open>A provider that answers every call with a full page.\<close>

definition truncatingProvider :: provider where
  "truncatingProvider n a b r types = Inr (Some (replicate 20 placeA))"

text \<open>A provider that knows three restaurants and no cafe.\<close>

definition listingProvider :: provider where
  "listingProvider n a b r types =
     (if n = 1 \<and> types = [''restaurant''] then Inr (Some [placeA, placeB, placeC])
      else Inr None)"

definition rootTile :: tile where
  "rootTile = \<lparr> lat = 0, lng = 0, radius = 1000, depth = 0 \<rparr>"

definition demoQuery :: query where
  "demoQuery = \<lparr> q_latitude = Some 0, q_longitude = Some 0, q_radius = None,
                  q_type = Some ''restaurant'', q_minRating = None, q_minReviews = None \<rparr>"

section \<open>The geometry of a subdivision\<close>

lemma subdivide_displacement:
  assumes "c \<in> set (subdivide t)"
  shows "(lat c - lat t) * 111320 = radius c * (7 / 10) \<or>
         (lat c - lat t) * 111320 = - (radius c * (7 / 10))"
    and "cos (lat t * pi / 180) \<noteq> 0 \<Longrightarrow>
         (lng c - lng t) * 111320 * cos (lat t * pi / 180) = radius c * (7 / 10) \<or>
         (lng c - lng t) * 111320 * cos (lat t * pi / 180) = - (radius c * (7 / 10))"
    and "cos (lat t * pi / 180) = 0 \<Longrightarrow>
         (lng c - lng t) * 111320 * cos (lat t * pi / 180) = 0"
    and "radius c = radius t / 2"
  using assms by (auto simp: subdivide_def Let_def)

lemma square_of_either_sign: "(x::real) = a \<or> x = - a \<Longrightarrow> x\<^sup>2 = a\<^sup>2"
  by auto

text \<open>Away from the poles a child's centre is displaced by the offset both to the
  north or south and to the east or west, hence lies on the diagonal.\<close>

lemma centerDistance_diagonal:
  assumes "c \<in> set (subdivide t)" and "cos (lat t * pi / 180) \<noteq> 0"
  shows "centerDistance t c = sqrt 2 * (7 / 10 * \<bar>radius c\<bar>)"
proof -
  have north: "((lat c - lat t) * 111320)\<^sup>2 = (radius c * (7 / 10))\<^sup>2"
    by (rule square_of_either_sign) (rule subdivide_displacement(1)[OF assms(1)])
  have east: "((lng c - lng t) * 111320 * cos (lat t * pi / 180))\<^sup>2 = (radius c * (7 / 10))\<^sup>2"
    by (rule square_of_either_sign) (rule subdivide_displacement(2)[OF assms(1) assms(2)])
  have "centerDistance t c = sqrt (2 * (radius c * (7 / 10))\<^sup>2)"
    unfolding centerDistance_def north east by simp
  also have "\<dots> = sqrt 2 * \<bar>radius c * (7 / 10)\<bar>"
    by (simp add: real_sqrt_mult)
  finally show ?thesis by (simp add: abs_mult)
qed

text \<open>Where the cosine vanishes the model's quotient \<open>offset / 0\<close> is 0 and only the
  displacement in latitude remains.\<close>

lemma centerDistance_pole:
  assumes "c \<in> set (subdivide t)" and "cos (lat t * pi / 180) = 0"
  shows "centerDistance t c = 7 / 10 * \<bar>radius c\<bar>"
proof -
  have north: "((lat c - lat t) * 111320)\<^sup>2 = (radius c * (7 / 10))\<^sup>2"
    by (rule square_of_either_sign) (rule subdivide_displacement(1)[OF assms(1)])
  have east: "((lng c - lng t) * 111320 * cos (lat t * pi / 180))\<^sup>2 = 0"
    using subdivide_displacement(3)[OF assms(1) assms(2)] by simp
  have "centerDistance t c = sqrt ((radius c * (7 / 10))\<^sup>2)"
    unfolding centerDistance_def north east by simp
  then show ?thesis by (simp add: abs_mult)
qed

lemma diagonal_factor_le_1: "sqrt 2 * (7 / 10) \<le> (1::real)"
proof -
  have "sqrt 2 \<le> 10 / 7"
    by (rule real_le_lsqrt) (simp_all add: power2_eq_square)
  then show ?thesis by simp
qed

lemma centerDistance_le_radius:
  assumes "c \<in> set (subdivide t)" and "0 \<le> radius t"
  shows "centerDistance t c \<le> radius c"
proof -
  have r: "0 \<le> radius c"
    using subdivide_displacement(4)[OF assms(1)] assms(2) by simp
  show ?thesis
  proof (cases "cos (lat t * pi / 180) = 0")
    case True
    then show ?thesis
      using centerDistance_pole[OF assms(1)] r by simp
  next
    case False
    have "sqrt 2 * (7 / 10) * radius c \<le> 1 * radius c"
      by (rule mult_right_mono[OF diagonal_factor_le_1 r])
    then show ?thesis
      using centerDistance_diagonal[OF assms(1) False] r by simp
  qed
qed

text \<open>
  Claim C1. A tile that the traversal subdivides has a radius above \<open>MIN_RADIUS\<close>
  (line 133). For every such tile, the centre of the parent lies within at least one
  of the four child discs: its distance to the centre of that child is at most the
  child's radius. The offset factor is the 0.7 of line 135.
\<close>

theorem parent_center_covered:
  "MIN_RADIUS < radius t \<Longrightarrow> \<exists>c\<in>set (subdivide t). centerDistance t c \<le> radius c"
proof -
  assume "MIN_RADIUS < radius t"
  then have nonneg: "0 \<le> radius t"
    by (simp add: MIN_RADIUS_def)
  have "hd (subdivide t) \<in> set (subdivide t)"
    by (simp add: subdivide_def Let_def)
  then show ?thesis
    using centerDistance_le_radius[OF _ nonneg] by blast
qed

theorem parent_center_covered_witness:
  "MIN_RADIUS < radius \<lparr> lat = 0, lng = 0, radius = 2000, depth = 0 \<rparr> \<and>
   (\<exists>c. c \<in> set (subdivide \<lparr> lat = 0, lng = 0, radius = 2000, depth = 0 \<rparr>) \<and>
        radius c = 1000 \<and>
        centerDistance \<lparr> lat = 0, lng = 0, radius = 2000, depth = 0 \<rparr> c \<le> 1000)"
proof -
  let ?t = "\<lparr> lat = 0, lng = 0, radius = 2000, depth = 0 \<rparr>"
  have big: "MIN_RADIUS < radius ?t"
    by (simp add: MIN_RADIUS_def)
  from parent_center_covered[OF big] obtain c where
    c: "c \<in> set (subdivide ?t)" "centerDistance ?t c \<le> radius c"
    by blast
  have "radius c = 1000"
    using subdivide_displacement(4)[OF c(1)] by simp
  with c big show ?thesis by auto
qed

text \<open>
  Claim C4, as stated: each child centre lies at distance
  \<open>offsetMeters = 0.7 \<times> childRadius\<close> from the parent centre. It fails: for the tile
  of radius 2000 at latitude 0 the first child is 700 m to the north and 700 m to the
  west of the parent centre, which is not a distance of 700 m.
\<close>

theorem child_distance_counterexample:
  "centerDistance \<lparr> lat = 0, lng = 0, radius = 2000, depth = 0 \<rparr>
     (subdivide \<lparr> lat = 0, lng = 0, radius = 2000, depth = 0 \<rparr> ! 0)
   \<noteq> 7 / 10 * radius (subdivide \<lparr> lat = 0, lng = 0, radius = 2000, depth = 0 \<rparr> ! 0)"
proof -
  let ?t = "\<lparr> lat = 0, lng = 0, radius = 2000, depth = 0 \<rparr>"
  let ?c = "subdivide ?t ! 0"
  have r: "radius ?c = 1000"
    by (simp add: subdivide_def Let_def)
  have "?c \<in> set (subdivide ?t)"
    by (simp add: subdivide_def Let_def)
  then have "centerDistance ?t ?c = sqrt 2 * (7 / 10 * \<bar>radius ?c\<bar>)"
    by (rule centerDistance_diagonal) simp
  then have "centerDistance ?t ?c = sqrt 2 * 700"
    by (simp add: r)
  moreover have "sqrt 2 * 700 \<noteq> (700::real)"
    by simp
  ultimately show ?thesis
    by (simp add: r)
qed

text \<open>
  Claim C4, amended. For a parent tile of non-negative radius, away from the poles,
  each of the four child centres is displaced by \<open>offsetMeters = 0.7 \<times> childRadius\<close>
  along both axes, so it lies at distance \<open>\<surd>2 \<times> 0.7 \<times> childRadius\<close> from the parent
  centre; this is at most \<open>childRadius\<close>, so the parent centre lies within every
  child disc.
\<close>

theorem child_distance_diagonal:
  assumes "0 \<le> radius t" and "cos (lat t * pi / 180) \<noteq> 0"
  shows "\<forall>c\<in>set (subdivide t).
           centerDistance t c = sqrt 2 * (7 / 10 * radius c) \<and> centerDistance t c \<le> radius c"
proof
  fix c
  assume c: "c \<in> set (subdivide t)"
  have r: "0 \<le> radius c"
    using subdivide_displacement(4)[OF c] assms(1) by simp
  show "centerDistance t c = sqrt 2 * (7 / 10 * radius c) \<and> centerDistance t c \<le> radius c"
    using centerDistance_diagonal[OF c assms(2)] centerDistance_le_radius[OF c assms(1)] r
    by simp
qed

theorem child_distance_diagonal_witness:
  "0 \<le> radius \<lparr> lat = 0, lng = 0, radius = 2000, depth = 0 \<rparr> \<and>
   cos (lat \<lparr> lat = 0, lng = 0, radius = 2000, depth = 0 \<rparr> * pi / 180) \<noteq> 0 \<and>
   centerDistance \<lparr> lat = 0, lng = 0, radius = 2000, depth = 0 \<rparr>
     (subdivide \<lparr> lat = 0, lng = 0, radius = 2000, depth = 0 \<rparr> ! 0) = sqrt 2 * 700 \<and>
   centerDistance \<lparr> lat = 0, lng = 0, radius = 2000, depth = 0 \<rparr>
     (subdivide \<lparr> lat = 0, lng = 0, radius = 2000, depth = 0 \<rparr> ! 0) \<le> 1000"
proof -
  let ?t = "\<lparr> lat = 0, lng = 0, radius = 2000, depth = 0 \<rparr>"
  let ?c = "subdivide ?t ! 0"
  have h1: "0 \<le> radius ?t" by simp
  have h2: "cos (lat ?t * pi / 180) \<noteq> 0" by simp
  have r: "radius ?c = 1000"
    by (simp add: subdivide_def Let_def)
  have m: "?c \<in> set (subdivide ?t)"
    by (simp add: subdivide_def Let_def)
  from child_distance_diagonal[OF h1 h2] m
  have "centerDistance ?t ?c = sqrt 2 * (7 / 10 * radius ?c) \<and> centerDistance ?t ?c \<le> radius ?c"
    by blast
  then show ?thesis
    using h1 h2 by (simp add: r)
qed

section \<open>The loop of a traversal\<close>

lemma tilingLoop_unfold:
  "tilingLoop apiKey https types s =
     (case loopStep apiKey https types s of
        None \<Rightarrow> s
      | Some s' \<Rightarrow> tilingLoop apiKey https types s')"
  by (subst tilingLoop.simps) (simp add: loopStep_def split: list.split)

lemma loopStep_None:
  "loopStep apiKey https types s = None \<longleftrightarrow> queue s = [] \<or> 200 \<le> apiCalls s"
  by (auto simp: loopStep_def split: list.splits)

lemma loopStep_SomeD:
  assumes "loopStep apiKey https types s = Some s'"
  obtains t rest where "queue s = t # rest" and "apiCalls s < 200"
    and "s' = processTile apiKey https types t rest s"
  using assms by (auto simp: loopStep_def split: list.splits if_splits)

text \<open>A property kept by every iteration holds when the loop is left.\<close>

lemma tilingLoop_invariant:
  assumes "P s"
    and "\<And>s s'. P s \<Longrightarrow> loopStep apiKey https types s = Some s' \<Longrightarrow> P s'"
  shows "P (tilingLoop apiKey https types s)"
  using assms
proof (induction apiKey https types s rule: tilingLoop.induct)
  case (1 apiKey https types s)
  show ?case
  proof (cases "loopStep apiKey https types s")
    case None
    then have "tilingLoop apiKey https types s = s"
      by (subst tilingLoop_unfold) simp
    then show ?thesis
      using "1.prems" by simp
  next
    case (Some s')
    then obtain t rest where q: "queue s = t # rest" and lt: "apiCalls s < 200"
      and s': "s' = processTile apiKey https types t rest s"
      by (rule loopStep_SomeD)
    have "P s'"
      using "1.prems"(2)[OF "1.prems"(1) Some] .
    then have "P (tilingLoop apiKey https types s')"
      using "1.IH"[OF q lt] "1.prems"(2) unfolding s' by blast
    moreover have "tilingLoop apiKey https types s = tilingLoop apiKey https types s'"
      using Some by (subst tilingLoop_unfold) simp
    ultimately show ?thesis by simp
  qed
qed

lemma tilingLoop_budget:
  "apiCalls s \<le> 200 \<Longrightarrow>
     apiCalls (tilingLoop apiKey https types s) \<le> 200 \<and>
     apiCalls s \<le> apiCalls (tilingLoop apiKey https types s) \<and>
     (queue (tilingLoop apiKey https types s) = [] \<or>
      apiCalls (tilingLoop apiKey https types s) = 200)"
proof (induction apiKey https types s rule: tilingLoop.induct)
  case (1 apiKey https types s)
  show ?case
  proof (cases "loopStep apiKey https types s")
    case None
    then have eq: "tilingLoop apiKey https types s = s"
      by (subst tilingLoop_unfold) simp
    from None have "queue s = [] \<or> 200 \<le> apiCalls s"
      by (simp add: loopStep_None)
    then show ?thesis
      using "1.prems" unfolding eq by auto
  next
    case (Some s')
    then obtain t rest where q: "queue s = t # rest" and lt: "apiCalls s < 200"
      and s': "s' = processTile apiKey https types t rest s"
      by (rule loopStep_SomeD)
    have "apiCalls s' \<le> 200"
      using lt s' by (simp add: apiCalls_processTile)
    moreover have "tilingLoop apiKey https types s = tilingLoop apiKey https types s'"
      using Some by (subst tilingLoop_unfold) simp
    moreover have "apiCalls s' = apiCalls s + 1"
      using s' by (simp add: apiCalls_processTile)
    ultimately show ?thesis
      using "1.IH"[OF q lt] s' by auto
  qed
qed

text \<open>The loop leaves after as many iterations as it has counted calls.\<close>

lemma tilingLoop_exits:
  "apiCalls s \<le> 200 \<Longrightarrow>
     exitsAfter apiKey https types (apiCalls (tilingLoop apiKey https types s) - apiCalls s) s
       = Some (tilingLoop apiKey https types s)"
proof (induction apiKey https types s rule: tilingLoop.induct)
  case (1 apiKey https types s)
  show ?case
  proof (cases "loopStep apiKey https types s")
    case None
    then have eq: "tilingLoop apiKey https types s = s"
      by (subst tilingLoop_unfold) simp
    show ?thesis
      unfolding eq using None by simp
  next
    case (Some s')
    then obtain t rest where q: "queue s = t # rest" and lt: "apiCalls s < 200"
      and s': "s' = processTile apiKey https types t rest s"
      by (rule loopStep_SomeD)
    have le: "apiCalls s' \<le> 200"
      using lt s' by (simp add: apiCalls_processTile)
    have mono: "apiCalls s' \<le> apiCalls (tilingLoop apiKey https types s')"
      using tilingLoop_budget[OF le] by simp
    have eq: "tilingLoop apiKey https types s = tilingLoop apiKey https types s'"
      using Some by (subst tilingLoop_unfold) simp
    have "apiCalls (tilingLoop apiKey https types s') - apiCalls s
            = Suc (apiCalls (tilingLoop apiKey https types s') - apiCalls s')"
      using mono s' by (simp add: apiCalls_processTile)
    then show ?thesis
      using "1.IH"[OF q lt le[unfolded s']] Some s' eq by simp
  qed
qed

text \<open>One list of answers is recorded per call.\<close>

lemma length_returned:
  "apiCalls s \<le> 200 \<Longrightarrow>
     length (returned apiKey https types s)
       = apiCalls (tilingLoop apiKey https types s) - apiCalls s"
proof (induction apiKey https types s rule: tilingLoop.induct)
  case (1 apiKey https types s)
  show ?case
  proof (cases "loopStep apiKey https types s")
    case None
    then have eq: "tilingLoop apiKey https types s = s"
      by (subst tilingLoop_unfold) simp
    from None have "returned apiKey https types s = []"
      by (subst returned.simps) (auto simp: loopStep_None split: list.split)
    then show ?thesis
      unfolding eq by simp
  next
    case (Some s')
    then obtain t rest where q: "queue s = t # rest" and lt: "apiCalls s < 200"
      and s': "s' = processTile apiKey https types t rest s"
      by (rule loopStep_SomeD)
    have le: "apiCalls s' \<le> 200"
      using lt s' by (simp add: apiCalls_processTile)
    have mono: "apiCalls s' \<le> apiCalls (tilingLoop apiKey https types s')"
      using tilingLoop_budget[OF le] by simp
    have eq: "tilingLoop apiKey https types s = tilingLoop apiKey https types s'"
      using Some by (subst tilingLoop_unfold) simp
    have "length (returned apiKey https types s) = Suc (length (returned apiKey https types s'))"
      using q lt s' by (subst returned.simps) simp
    then show ?thesis
      using "1.IH"[OF q lt le[unfolded s']] mono s' eq by (simp add: apiCalls_processTile)
  qed
qed

section \<open>A provider that always answers with a full page\<close>

lemma subtreeSize_step: "d < 5 \<Longrightarrow> subtreeSize d = 1 + 4 * subtreeSize (d + 1)"
proof -
  assume "d < 5"
  then consider "d = 0" | "d = 1" | "d = 2" | "d = 3" | "d = 4"
    by linarith
  then show ?thesis
    by cases (simp_all add: subtreeSize_def)
qed

lemma subtreeSize_leaf: "subtreeSize 5 = 1"
  by (simp add: subtreeSize_def)

lemma fullTree_step:
  assumes key: "\<not> noApiKey apiKey"
    and full: "\<forall>n a b r. \<exists>ps. https n a b r types = Inr (Some ps) \<and> 20 \<le> length ps"
    and R: "8000 < R"
    and inv: "fullTree R s"
    and st: "loopStep apiKey https types s = Some s'"
  shows "fullTree R s'"
proof -
  from st obtain t rest where q: "queue s = t # rest" and lt: "apiCalls s < 200"
    and s': "s' = processTile apiKey https types t rest s"
    by (rule loopStep_SomeD)
  from full obtain ps where
    ps: "https (apiCalls s + 1) (lat t) (lng t) (radius t) types = Inr (Some ps)"
      "20 \<le> length ps"
    by blast
  have sn: "searchNearby apiKey https (apiCalls s + 1) (lat t) (lng t) (radius t) types = Inr ps"
    using key ps(1) by (simp add: searchNearby_def)
  from inv q have t: "depth t \<le> 5" "radius t * 2 ^ depth t = R"
    and rest: "list_all (\<lambda>t. depth t \<le> 5 \<and> radius t * 2 ^ depth t = R) rest"
    and total: "subtreeSize (depth t) + sum_list (map (\<lambda>t. subtreeSize (depth t)) rest)
                  + apiCalls s = 1365"
    by (simp_all add: fullTree_def)
  show ?thesis
  proof (cases "depth t < 5")
    case True
    have "(2::real) ^ depth t \<le> 2 ^ 4"
      using True by (intro power_increasing) simp_all
    then have p: "500 * (2::real) ^ depth t \<le> 8000"
      by simp
    have big: "radius t > 500"
    proof (rule ccontr)
      assume "\<not> radius t > 500"
      then have "radius t * 2 ^ depth t \<le> 500 * 2 ^ depth t"
        by (intro mult_right_mono) simp_all
      with p t(2) R show False by simp
    qed
    have q': "queue s' = rest @ subdivide t" and c': "apiCalls s' = apiCalls s + 1"
      using sn ps(2) big True unfolding s'
      by (simp_all add: processTile_def Let_def MIN_RADIUS_def MAX_DEPTH_def)
    have children: "list_all (\<lambda>c. depth c \<le> 5 \<and> radius c * 2 ^ depth c = R) (subdivide t)"
      using True t(2) by (simp add: subdivide_def Let_def)
    have weight: "sum_list (map (\<lambda>t. subtreeSize (depth t)) (subdivide t))
                    = 4 * subtreeSize (depth t + 1)"
      by (simp add: subdivide_def Let_def)
    show ?thesis
      using rest children weight total subtreeSize_step[OF True]
      unfolding fullTree_def q' c' by simp
  next
    case False
    with t(1) have d: "depth t = 5"
      by simp
    have q': "queue s' = rest" and c': "apiCalls s' = apiCalls s + 1"
      using sn d unfolding s'
      by (simp_all add: processTile_def Let_def MAX_DEPTH_def)
    show ?thesis
      using rest total d subtreeSize_leaf unfolding fullTree_def q' c' by simp
  qed
qed

text \<open>
  With a configured key, a provider that answers every call with at least 20 places
  and an initial radius above 8000 m (so that every tile of depth below 5 is wider
  than \<open>MIN_RADIUS\<close>), the queue is never exhausted and the traversal stops on its
  budget.
\<close>

lemma always_truncated_budget:
  assumes key: "\<not> noApiKey apiKey"
    and full: "\<forall>n a b r. \<exists>ps. https n a b r types = Inr (Some ps) \<and> 20 \<le> length ps"
    and R: "8000 < radiusMeters"
  shows "queue (tilingLoop apiKey https types (initialState lat' lng' radiusMeters)) \<noteq> [] \<and>
         apiCalls (tilingLoop apiKey https types (initialState lat' lng' radiusMeters)) = 200"
proof -
  let ?s = "initialState lat' lng' radiusMeters"
  let ?f = "tilingLoop apiKey https types ?s"
  have "fullTree radiusMeters ?s"
    by (simp add: fullTree_def initialState_def subtreeSize_def)
  then have inv: "fullTree radiusMeters ?f"
  proof (rule tilingLoop_invariant)
    fix s s'
    assume "fullTree radiusMeters s" "loopStep apiKey https types s = Some s'"
    with key full R show "fullTree radiusMeters s'"
      by (rule fullTree_step[where https = https and types = types])
  qed
  have le: "apiCalls ?s \<le> 200"
    by (simp add: initialState_def)
  from tilingLoop_budget[OF le, of apiKey https types]
  have b: "apiCalls ?f \<le> 200" "queue ?f = [] \<or> apiCalls ?f = 200"
    by simp_all
  have "queue ?f \<noteq> []"
  proof
    assume "queue ?f = []"
    with inv have "apiCalls ?f = 1365"
      by (simp add: fullTree_def)
    with b(1) show False by simp
  qed
  with b(2) show ?thesis by simp
qed

section \<open>The budget\<close>

text \<open>
  Claim C2. Whatever the provider does, the counter of a traversal ends at most at
  \<open>MAX_API_CALLS\<close>, one answer (or failure) is recorded per counted call, the count
  reported in the metrics is that counter, and when the loop is left with tiles still
  queued the counter is exactly \<open>MAX_API_CALLS\<close>.
\<close>

theorem budget_never_exceeded:
  "apiCalls (tilingLoop apiKey https types (initialState lat' lng' radiusMeters)) \<le> MAX_API_CALLS \<and>
   length (returned apiKey https types (initialState lat' lng' radiusMeters))
     = apiCalls (tilingLoop apiKey https types (initialState lat' lng' radiusMeters)) \<and>
   m_apiCalls (metrics (adaptiveTilingSearch apiKey https lat' lng' radiusMeters types))
     = apiCalls (tilingLoop apiKey https types (initialState lat' lng' radiusMeters)) \<and>
   (queue (tilingLoop apiKey https types (initialState lat' lng' radiusMeters)) \<noteq> [] \<longrightarrow>
      apiCalls (tilingLoop apiKey https types (initialState lat' lng' radiusMeters)) = MAX_API_CALLS)"
proof -
  let ?s = "initialState lat' lng' radiusMeters"
  have z: "apiCalls ?s = 0"
    by (simp add: initialState_def)
  then have le: "apiCalls ?s \<le> 200"
    by simp
  show ?thesis
    using tilingLoop_budget[OF le, of apiKey https types]
      length_returned[OF le, of apiKey https types] z
    unfolding MAX_API_CALLS_def
    by (auto simp: adaptiveTilingSearch_def Let_def)
qed

text \<open>The run of the spec's end-to-end scenario against a provider that always
  answers with a full page: the queue is not exhausted and exactly 200 calls are made.\<close>

theorem budget_never_exceeded_witness:
  "queue (tilingLoop (Some ''key'') truncatingProvider [''restaurant'']
            (initialState (320853 / 10000) (347818 / 10000) 15000)) \<noteq> [] \<and>
   apiCalls (tilingLoop (Some ''key'') truncatingProvider [''restaurant'']
            (initialState (320853 / 10000) (347818 / 10000) 15000)) = MAX_API_CALLS \<and>
   m_apiCalls (metrics (adaptiveTilingSearch (Some ''key'') truncatingProvider
            (320853 / 10000) (347818 / 10000) 15000 [''restaurant''])) = 200"
proof -
  have key: "\<not> noApiKey (Some ''key'')"
    by (simp add: noApiKey_def)
  have full: "\<forall>n a b r. \<exists>ps. truncatingProvider n a b r [''restaurant''] = Inr (Some ps) \<and>
                20 \<le> length ps"
    by (simp add: truncatingProvider_def)
  have R: "(8000::real) < 15000"
    by simp
  have nonempty: "queue (tilingLoop (Some ''key'') truncatingProvider [''restaurant'']
            (initialState (320853 / 10000) (347818 / 10000) 15000)) \<noteq> []"
    using always_truncated_budget[where https = truncatingProvider and types = "[''restaurant'']", OF key full R] by simp
  with budget_never_exceeded[of "Some ''key''" truncatingProvider "[''restaurant'']"
      "320853 / 10000" "347818 / 10000" 15000]
  show ?thesis
    by (simp add: MAX_API_CALLS_def)
qed

text \<open>
  Claim C5. For every input and every provider, the loop of a traversal is left after
  at most \<open>MAX_API_CALLS\<close> iterations, in the state the traversal returns from, and
  it is left with an empty queue or with the budget used up.
\<close>

theorem traversal_terminates:
  "\<exists>n. n \<le> MAX_API_CALLS \<and>
       exitsAfter apiKey https types n (initialState lat' lng' radiusMeters)
         = Some (tilingLoop apiKey https types (initialState lat' lng' radiusMeters)) \<and>
       (queue (tilingLoop apiKey https types (initialState lat' lng' radiusMeters)) = [] \<or>
        apiCalls (tilingLoop apiKey https types (initialState lat' lng' radiusMeters))
          = MAX_API_CALLS)"
proof -
  let ?s = "initialState lat' lng' radiusMeters"
  have z: "apiCalls ?s = 0"
    by (simp add: initialState_def)
  then have le: "apiCalls ?s \<le> 200"
    by simp
  show ?thesis
    using tilingLoop_budget[OF le, of apiKey https types]
      tilingLoop_exits[OF le, of apiKey https types] z
    unfolding MAX_API_CALLS_def
    by (intro exI[of _ "apiCalls (tilingLoop apiKey https types ?s)"]) simp
qed

text \<open>Against the provider that always answers with a full page the loop is left
  after exactly 200 iterations, with tiles still queued.\<close>

theorem traversal_terminates_witness:
  "(\<exists>n. n \<le> MAX_API_CALLS \<and>
        exitsAfter (Some ''key'') truncatingProvider [''restaurant''] n
            (initialState (320853 / 10000) (347818 / 10000) 15000)
          = Some (tilingLoop (Some ''key'') truncatingProvider [''restaurant'']
               (initialState (320853 / 10000) (347818 / 10000) 15000))) \<and>
   apiCalls (tilingLoop (Some ''key'') truncatingProvider [''restaurant'']
          (initialState (320853 / 10000) (347818 / 10000) 15000)) = MAX_API_CALLS \<and>
   queue (tilingLoop (Some ''key'') truncatingProvider [''restaurant'']
          (initialState (320853 / 10000) (347818 / 10000) 15000)) \<noteq> []"
proof -
  let ?s = "initialState (320853 / 10000) (347818 / 10000) 15000"
  let ?f = "tilingLoop (Some ''key'') truncatingProvider [''restaurant''] ?s"
  have key: "\<not> noApiKey (Some ''key'')"
    by (simp add: noApiKey_def)
  have full: "\<forall>n a b r. \<exists>ps. truncatingProvider n a b r [''restaurant''] = Inr (Some ps) \<and>
                20 \<le> length ps"
    by (simp add: truncatingProvider_def)
  have R: "(8000::real) < 15000"
    by simp
  have f: "queue ?f \<noteq> []" "apiCalls ?f = MAX_API_CALLS"
    using always_truncated_budget[where https = truncatingProvider and types = "[''restaurant'']", OF key full R]
    by (simp_all add: MAX_API_CALLS_def)
  from traversal_terminates[of "Some ''key''" truncatingProvider "[''restaurant'']"
      "320853 / 10000" "347818 / 10000" 15000]
  have "\<exists>n. n \<le> MAX_API_CALLS \<and>
          exitsAfter (Some ''key'') truncatingProvider [''restaurant''] n ?s = Some ?f"
    by blast
  with f show ?thesis by simp
qed

section \<open>One processed tile\<close>

lemma length_subdivide: "length (subdivide t) = 4"
  by (simp add: subdivide_def Let_def)

lemma has_iff: "has seen i \<longleftrightarrow> i \<in> fst ` set seen"
  by (simp add: has_def map_of_eq_None_iff)

lemma addPlace_present: "has seen (p_id p) \<Longrightarrow> addPlace seen p = seen"
  by (simp add: addPlace_def)

lemma map_of_addPlace:
  "map_of (addPlace seen p) i =
     (case map_of seen i of
        Some v \<Rightarrow> Some v
      | None \<Rightarrow> if p_id p = i then Some (toSeenPlace p) else None)"
  by (auto simp: addPlace_def has_def map_add_def split: option.splits)

text \<open>A page that repeats one place inserts it once.\<close>

lemma foldl_addPlace_replicate:
  "foldl addPlace seen (replicate (Suc n) p) = addPlace seen p"
proof (induction n arbitrary: seen)
  case 0
  then show ?case by simp
next
  case (Suc n)
  have "has (addPlace seen p) (p_id p)"
    by (simp add: map_of_addPlace has_def split: option.split)
  then have "addPlace (addPlace seen p) p = addPlace seen p"
    by (rule addPlace_present)
  then show ?case
    using Suc.IH[of "addPlace seen p"] by simp
qed

text \<open>The first call of the demonstration run: a full page for the root tile.\<close>

lemma demo_first_call:
  "searchNearby (Some ''key'') demoProvider (apiCalls (initialState 0 0 1000) + 1)
     (lat rootTile) (lng rootTile) (radius rootTile) [''restaurant'']
     = Inr (replicate 20 placeA)"
  by (simp add: searchNearby_def noApiKey_def demoProvider_def initialState_def)

lemma demo_first_step:
  "processTile (Some ''key'') demoProvider [''restaurant''] rootTile [] (initialState 0 0 1000)
     = \<lparr> queue = subdivide rootTile, apiCalls = 1, seenPlaces = [(''a'', toSeenPlace placeA)] \<rparr>"
proof -
  have "replicate 20 placeA = replicate (Suc 19) placeA"
    by simp
  then have "foldl addPlace [] (replicate 20 placeA) = addPlace [] placeA"
    by (simp only: foldl_addPlace_replicate)
  then show ?thesis
    using demo_first_call
    by (simp add: processTile_def initialState_def rootTile_def MIN_RADIUS_def MAX_DEPTH_def
          addPlace_def has_def placeA_def)
qed

text \<open>The rest of the demonstration run: a failure, a second sighting, two empty
  answers.\<close>

lemma demo_rest_of_run:
  "tilingLoop (Some ''key'') demoProvider [''restaurant'']
     \<lparr> queue = tl (subdivide rootTile), apiCalls = 2, seenPlaces = [(''a'', toSeenPlace placeA)] \<rparr>
     = \<lparr> queue = [], apiCalls = 5, seenPlaces = [(''a'', toSeenPlace placeA)] \<rparr>"
  by (simp add: tilingLoop.simps subdivide_def Let_def rootTile_def processTile_def
        searchNearby_def noApiKey_def demoProvider_def addPlace_def has_def placeA_def
        placeA'_def toSeenPlace_def)

text \<open>
  Claim C3. For a tile whose query succeeded, the queue after the iteration is the rest
  of the queue, followed by the four children or by nothing. The children are enqueued
  exactly when the answer has at least 20 places (line 133 tests \<open>>=\<close>), the radius
  is above \<open>MIN_RADIUS\<close> and the depth below \<open>MAX_DEPTH\<close>; for an answer within the
  provider's capacity of 20 that is: exactly when the count equals the capacity and
  the two bounds hold. In particular a count below capacity, a depth of
  \<open>MAX_DEPTH\<close> or a radius of at most \<open>MIN_RADIUS\<close> leaves the queue without children.
\<close>

theorem subdivision_rule:
  assumes "searchNearby apiKey https (apiCalls s + 1) (lat t) (lng t) (radius t) types = Inr ps"
  shows "(length ps \<le> MAX_RESULT_COUNT \<longrightarrow>
            (queue (processTile apiKey https types t rest s) = rest @ subdivide t \<longleftrightarrow>
               length ps = MAX_RESULT_COUNT \<and> MIN_RADIUS < radius t \<and> depth t < MAX_DEPTH)) \<and>
         (queue (processTile apiKey https types t rest s) = rest @ subdivide t \<longleftrightarrow>
            MAX_RESULT_COUNT \<le> length ps \<and> MIN_RADIUS < radius t \<and> depth t < MAX_DEPTH) \<and>
         (queue (processTile apiKey https types t rest s) = rest \<or>
          queue (processTile apiKey https types t rest s) = rest @ subdivide t) \<and>
         length (subdivide t) = 4 \<and>
         (length ps < MAX_RESULT_COUNT \<or> MAX_DEPTH \<le> depth t \<or> radius t \<le> MIN_RADIUS \<longrightarrow>
            queue (processTile apiKey https types t rest s) = rest)"
  using assms length_subdivide[of t]
  by (auto simp: processTile_def Let_def MAX_RESULT_COUNT_def)

text \<open>The root tile of the demonstration run (radius 1000, depth 0) receives a full
  page and is subdivided.\<close>

theorem subdivision_rule_witness:
  "searchNearby (Some ''key'') demoProvider (apiCalls (initialState 0 0 1000) + 1)
     (lat rootTile) (lng rootTile) (radius rootTile) [''restaurant'']
     = Inr (replicate 20 placeA) \<and>
   length (replicate 20 placeA) \<le> MAX_RESULT_COUNT \<and>
   length (replicate 20 placeA) = MAX_RESULT_COUNT \<and>
   MIN_RADIUS < radius rootTile \<and> depth rootTile < MAX_DEPTH \<and>
   queue (processTile (Some ''key'') demoProvider [''restaurant''] rootTile []
            (initialState 0 0 1000)) = [] @ subdivide rootTile \<and>
   length (subdivide rootTile) = 4"
proof -
  have c: "length (replicate 20 placeA) = MAX_RESULT_COUNT" "MIN_RADIUS < radius rootTile"
    "depth rootTile < MAX_DEPTH"
    by (simp_all add: MAX_RESULT_COUNT_def MIN_RADIUS_def MAX_DEPTH_def rootTile_def)
  from subdivision_rule[OF demo_first_call, of "[]"] c
  show ?thesis
    using demo_first_call by simp
qed

section \<open>A failed query\<close>

text \<open>
  Claim C7. When the query of the dequeued tile fails (\<open>searchNearby\<close> throws: no
  key, a timeout, any other error of the request), the iteration only drops the tile
  and counts the call: the registry is unchanged, no child is enqueued, the tile is
  not queued again, and the traversal goes on with the rest of the queue. The state
  after the iteration is the one an answer without places would have left. The
  traversal itself has no failing outcome: \<open>adaptiveTilingSearch\<close> always returns a
  result.
\<close>

theorem failed_query_skips_tile:
  assumes "queue s = t # rest" and "apiCalls s < MAX_API_CALLS"
    and "searchNearby apiKey https (apiCalls s + 1) (lat t) (lng t) (radius t) types = Inl err"
  shows "processTile apiKey https types t rest s
           = \<lparr> queue = rest, apiCalls = apiCalls s + 1, seenPlaces = seenPlaces s \<rparr> \<and>
         tilingLoop apiKey https types s
           = tilingLoop apiKey https types
               \<lparr> queue = rest, apiCalls = apiCalls s + 1, seenPlaces = seenPlaces s \<rparr> \<and>
         processTile apiKey https types t rest s
           = processTile (Some ''key'') (\<lambda>n a b r ts. Inr (Some [])) types t rest s"
proof -
  have p: "processTile apiKey https types t rest s
           = \<lparr> queue = rest, apiCalls = apiCalls s + 1, seenPlaces = seenPlaces s \<rparr>"
    using assms(3) by (simp add: processTile_def Let_def)
  have "tilingLoop apiKey https types s
          = tilingLoop apiKey https types (processTile apiKey https types t rest s)"
    using assms(1,2) by (subst tilingLoop.simps) (simp add: MAX_API_CALLS_def)
  moreover have "processTile (Some ''key'') (\<lambda>n a b r ts. Inr (Some [])) types t rest s
           = \<lparr> queue = rest, apiCalls = apiCalls s + 1, seenPlaces = seenPlaces s \<rparr>"
    by (simp add: processTile_def searchNearby_def noApiKey_def Let_def)
  ultimately show ?thesis
    using p by simp
qed

text \<open>In the demonstration run the second call, for the first child of the root tile,
  times out; the run goes on through the three other children and ends after five
  calls with the one place of the first answer.\<close>

theorem failed_query_skips_tile_witness:
  "searchNearby (Some ''key'') demoProvider 2 (lat (hd (subdivide rootTile)))
     (lng (hd (subdivide rootTile))) (radius (hd (subdivide rootTile))) [''restaurant'']
     = Inl RequestTimeout \<and>
   tilingLoop (Some ''key'') demoProvider [''restaurant'']
     \<lparr> queue = subdivide rootTile, apiCalls = 1, seenPlaces = [(''a'', toSeenPlace placeA)] \<rparr>
     = \<lparr> queue = [], apiCalls = 5, seenPlaces = [(''a'', toSeenPlace placeA)] \<rparr> \<and>
   adaptiveTilingSearch (Some ''key'') demoProvider 0 0 1000 [''restaurant'']
     = \<lparr> places = [toSeenPlace placeA],
         metrics = \<lparr> m_apiCalls = 5, m_uniquePlaces = 1 \<rparr> \<rparr>"
proof -
  let ?s1 = "\<lparr> queue = subdivide rootTile, apiCalls = 1,
                seenPlaces = [(''a'', toSeenPlace placeA)] \<rparr>"
  have q: "queue ?s1 = hd (subdivide rootTile) # tl (subdivide rootTile)"
    by (simp add: subdivide_def Let_def)
  have b: "apiCalls ?s1 < MAX_API_CALLS"
    by (simp add: MAX_API_CALLS_def)
  have e2: "searchNearby (Some ''key'') demoProvider 2
             (lat (hd (subdivide rootTile))) (lng (hd (subdivide rootTile)))
             (radius (hd (subdivide rootTile))) [''restaurant''] = Inl RequestTimeout"
    by (simp add: searchNearby_def noApiKey_def demoProvider_def)
  have n: "apiCalls ?s1 + 1 = 2"
    by simp
  have e: "searchNearby (Some ''key'') demoProvider (apiCalls ?s1 + 1)
             (lat (hd (subdivide rootTile))) (lng (hd (subdivide rootTile)))
             (radius (hd (subdivide rootTile))) [''restaurant''] = Inl RequestTimeout"
    unfolding n by (rule e2)
  have st: "\<lparr> queue = tl (subdivide rootTile), apiCalls = apiCalls ?s1 + 1,
               seenPlaces = seenPlaces ?s1 \<rparr>
            = \<lparr> queue = tl (subdivide rootTile), apiCalls = 2,
                seenPlaces = [(''a'', toSeenPlace placeA)] \<rparr>"
    by simp
  have "tilingLoop (Some ''key'') demoProvider [''restaurant''] ?s1
          = tilingLoop (Some ''key'') demoProvider [''restaurant'']
              \<lparr> queue = tl (subdivide rootTile), apiCalls = apiCalls ?s1 + 1,
                seenPlaces = seenPlaces ?s1 \<rparr>"
    by (rule conjunct1[OF conjunct2[OF failed_query_skips_tile[OF q b e]]])
  then have run: "tilingLoop (Some ''key'') demoProvider [''restaurant''] ?s1
          = \<lparr> queue = [], apiCalls = 5, seenPlaces = [(''a'', toSeenPlace placeA)] \<rparr>"
    by (simp only: st demo_rest_of_run)
  have "tilingLoop (Some ''key'') demoProvider [''restaurant''] (initialState 0 0 1000)
          = tilingLoop (Some ''key'') demoProvider [''restaurant''] ?s1"
    using demo_first_step
    by (subst tilingLoop.simps) (simp add: initialState_def rootTile_def)
  with run have res: "adaptiveTilingSearch (Some ''key'') demoProvider 0 0 1000 [''restaurant'']
     = \<lparr> places = [toSeenPlace placeA], metrics = \<lparr> m_apiCalls = 5, m_uniquePlaces = 1 \<rparr> \<rparr>"
    by (simp add: adaptiveTilingSearch_def)
  from e2 run res show ?thesis
    by (intro conjI)
qed

section \<open>The registry\<close>

lemma seenPlaces_processTile:
  "seenPlaces (processTile apiKey https types t rest s) =
     foldl addPlace (seenPlaces s)
       (case searchNearby apiKey https (apiCalls s + 1) (lat t) (lng t) (radius t) types of
          Inl err \<Rightarrow> []
        | Inr ps \<Rightarrow> ps)"
  by (simp add: processTile_def Let_def split: sum.split)

text \<open>The registry at the end of a traversal is the registry at its start with all
  returned places inserted in the order of their return.\<close>

lemma seenPlaces_tilingLoop:
  "seenPlaces (tilingLoop apiKey https types s) =
     foldl addPlace (seenPlaces s) (concat (returned apiKey https types s))"
proof (induction apiKey https types s rule: tilingLoop.induct)
  case (1 apiKey https types s)
  show ?case
  proof (cases "queue s")
    case Nil
    then show ?thesis
      by (subst tilingLoop.simps, subst returned.simps) simp
  next
    case (Cons t rest)
    show ?thesis
    proof (cases "apiCalls s < 200")
      case True
      show ?thesis
        using "1.IH"[OF Cons True] Cons True
        by (subst tilingLoop.simps, subst returned.simps) (simp add: seenPlaces_processTile)
    next
      case False
      then show ?thesis
        using Cons by (subst tilingLoop.simps, subst returned.simps) simp
    qed
  qed
qed

lemma s_id_toSeenPlace: "s_id (toSeenPlace p) = p_id p"
  by (simp add: toSeenPlace_def)

lemma keyed_addPlace: "keyed seen \<Longrightarrow> keyed (addPlace seen p)"
  by (auto simp: keyed_def addPlace_def has_iff s_id_toSeenPlace)

lemma keyed_foldl: "keyed seen \<Longrightarrow> keyed (foldl addPlace seen ps)"
  by (induction ps arbitrary: seen) (simp_all add: keyed_addPlace)

text \<open>A key is bound to what it was bound to before the insertions, or else to the
  first inserted place that carries it.\<close>

lemma map_of_foldl_addPlace:
  "map_of (foldl addPlace seen ps) i =
     (case map_of seen i of
        Some v \<Rightarrow> Some v
      | None \<Rightarrow> map_option toSeenPlace (find (\<lambda>p. p_id p = i) ps))"
proof (induction ps arbitrary: seen)
  case Nil
  then show ?case
    by (simp split: option.split)
next
  case (Cons p ps)
  show ?case
    by (simp add: Cons.IH map_of_addPlace split: option.split)
qed

lemma find_values:
  "list_all (\<lambda>(k, v). s_id v = k) seen \<Longrightarrow>
     find (\<lambda>v. s_id v = i) (map snd seen) = map_of seen i"
  by (induction seen) auto

lemma distinct_values: "keyed seen \<Longrightarrow> distinct (map s_id (map snd seen))"
proof -
  assume k: "keyed seen"
  then have "list_all (\<lambda>(k, v). s_id v = k) seen"
    by (simp add: keyed_def)
  then have eq: "map s_id (map snd seen) = map fst seen"
    by (induction seen) auto
  show ?thesis
    unfolding eq using k by (simp add: keyed_def)
qed

text \<open>
  Claim C6. The places a traversal returns hold at most one record per identity. The
  record of an identity is built from the first place with that identity among all
  places the provider returned, taken tile by tile in the order of processing; so when
  two processed tiles return the same identity, the record has the attributes of the
  tile processed first. Inserting a place whose identity is already present leaves the
  registry as it is.
\<close>

theorem first_write_wins:
  "distinct (map s_id (places (adaptiveTilingSearch apiKey https lat' lng' radiusMeters types))) \<and>
   (\<forall>i. find (\<lambda>v. s_id v = i)
           (places (adaptiveTilingSearch apiKey https lat' lng' radiusMeters types))
         = map_option toSeenPlace
             (find (\<lambda>p. p_id p = i)
                (concat (returned apiKey https types (initialState lat' lng' radiusMeters))))) \<and>
   (\<forall>seen p. has seen (p_id p) \<longrightarrow> addPlace seen p = seen)"
proof -
  let ?s = "initialState lat' lng' radiusMeters"
  let ?R = "concat (returned apiKey https types ?s)"
  let ?out = "places (adaptiveTilingSearch apiKey https lat' lng' radiusMeters types)"
  have reg: "seenPlaces (tilingLoop apiKey https types ?s) = foldl addPlace [] ?R"
    using seenPlaces_tilingLoop[of apiKey https types ?s] by (simp add: initialState_def)
  have k: "keyed (foldl addPlace [] ?R)"
    by (rule keyed_foldl) (simp add: keyed_def)
  have out: "?out = map snd (foldl addPlace [] ?R)"
    by (simp add: adaptiveTilingSearch_def Let_def reg)
  have one: "distinct (map s_id ?out)"
    unfolding out by (rule distinct_values[OF k])
  have first: "find (\<lambda>v. s_id v = i) ?out = map_option toSeenPlace (find (\<lambda>p. p_id p = i) ?R)"
    for i
    unfolding out using k by (simp add: find_values keyed_def map_of_foldl_addPlace)
  show ?thesis
    using one first addPlace_present by blast
qed

lemma returned_Cons:
  assumes "queue s = t # rest" and "apiCalls s < 200"
  shows "returned apiKey https types s =
           (case searchNearby apiKey https (apiCalls s + 1) (lat t) (lng t) (radius t) types of
              Inl err \<Rightarrow> []
            | Inr ps \<Rightarrow> ps)
           # returned apiKey https types (processTile apiKey https types t rest s)"
  using assms by (subst returned.simps) simp

lemma demo_returned:
  "returned (Some ''key'') demoProvider [''restaurant''] (initialState 0 0 1000)
     = [replicate 20 placeA, [], [placeA'], [], []]"
proof -
  have rest: "returned (Some ''key'') demoProvider [''restaurant'']
         \<lparr> queue = subdivide rootTile, apiCalls = 1, seenPlaces = [(''a'', toSeenPlace placeA)] \<rparr>
       = [[], [placeA'], [], []]"
    by (simp add: returned.simps subdivide_def Let_def rootTile_def processTile_def
          searchNearby_def noApiKey_def demoProvider_def addPlace_def has_def placeA_def
          placeA'_def toSeenPlace_def)
  have q: "queue (initialState 0 0 1000) = rootTile # []"
    by (simp add: initialState_def rootTile_def)
  have b: "apiCalls (initialState 0 0 1000) < 200"
    by (simp add: initialState_def)
  show ?thesis
    by (simp only: returned_Cons[OF q b] demo_first_call demo_first_step rest sum.case)
qed

text \<open>In the demonstration run the root tile returns the identity \<open>a\<close> under the name
  \<open>first\<close> and a tile processed later returns it under the name \<open>second\<close>: the
  result has the one record named \<open>first\<close>.\<close>

theorem first_write_wins_witness:
  "returned (Some ''key'') demoProvider [''restaurant''] (initialState 0 0 1000)
     = [replicate 20 placeA, [], [placeA'], [], []] \<and>
   p_id placeA = ''a'' \<and> p_id placeA' = ''a'' \<and>
   find (\<lambda>v. s_id v = ''a'')
     (places (adaptiveTilingSearch (Some ''key'') demoProvider 0 0 1000 [''restaurant'']))
     = Some (toSeenPlace placeA) \<and>
   s_name (toSeenPlace placeA) = ''first'' \<and>
   s_name (toSeenPlace placeA') = ''second'' \<and>
   distinct (map s_id
     (places (adaptiveTilingSearch (Some ''key'') demoProvider 0 0 1000 [''restaurant'']))) \<and>
   has [(''a'', toSeenPlace placeA)] (p_id placeA') \<and>
   addPlace [(''a'', toSeenPlace placeA)] placeA' = [(''a'', toSeenPlace placeA)]"
proof -
  note fww = first_write_wins[of "Some ''key''" demoProvider 0 0 1000 "[''restaurant'']"]
  have page: "replicate 20 placeA = placeA # replicate 19 placeA"
    by (simp add: replicate_Suc[symmetric] del: replicate_Suc)
  have names: "p_id placeA = ''a''" "p_id placeA' = ''a''"
    "s_name (toSeenPlace placeA) = ''first''" "s_name (toSeenPlace placeA') = ''second''"
    by (simp_all add: toSeenPlace_def placeA_def placeA'_def)
  have "find (\<lambda>p. p_id p = ''a'')
          (concat (returned (Some ''key'') demoProvider [''restaurant''] (initialState 0 0 1000)))
        = Some placeA"
    by (simp add: demo_returned page names)
  with fww have found: "find (\<lambda>v. s_id v = ''a'')
     (places (adaptiveTilingSearch (Some ''key'') demoProvider 0 0 1000 [''restaurant'']))
     = Some (toSeenPlace placeA)"
    by simp
  have present: "has [(''a'', toSeenPlace placeA)] (p_id placeA')"
    by (simp add: has_def names)
  with fww have kept: "addPlace [(''a'', toSeenPlace placeA)] placeA' = [(''a'', toSeenPlace placeA)]"
    by blast
  from fww have "distinct (map s_id
     (places (adaptiveTilingSearch (Some ''key'') demoProvider 0 0 1000 [''restaurant''])))"
    by blast
  with demo_returned names found present kept show ?thesis
    by (intro conjI)
qed

section \<open>The handler\<close>

subsection \<open>The sort\<close>

lemma comparePlaces_le: "comparePlaces a b \<le> 0 \<longleftrightarrow> sortKey a \<le> sortKey b"
  by (auto simp: comparePlaces_def sortKey_def less_eq_prod_def)

lemma insertBy_insort: "insertBy comparePlaces x ys = insort_key sortKey x ys"
  by (induction ys) (simp_all add: comparePlaces_le)

text \<open>Sorting with the comparator is the stable sort by the key.\<close>

lemma sortBy_sort_key: "sortBy comparePlaces xs = sort_key sortKey xs"
proof -
  have "insertBy comparePlaces = insort_key sortKey"
    by (intro ext) (rule insertBy_insort)
  then show ?thesis
    by (simp add: sortBy_def sort_key_def)
qed

lemma sortKey_le:
  "sortKey a \<le> sortKey b \<longleftrightarrow>
     f_rating b < f_rating a \<or> (f_rating a = f_rating b \<and> f_reviewCount b \<le> f_reviewCount a)"
  by (auto simp: sortKey_def less_eq_prod_def)

lemma sortBy_sorted:
  "sorted_wrt (\<lambda>a b. f_rating b < f_rating a \<or>
                      (f_rating a = f_rating b \<and> f_reviewCount b \<le> f_reviewCount a))
     (sortBy comparePlaces xs)"
proof -
  have "sorted (map sortKey (sort_key sortKey xs))"
    by (rule sorted_sort_key)
  then have "sorted_wrt (\<lambda>a b. sortKey a \<le> sortKey b) (sortBy comparePlaces xs)"
    by (simp add: sortBy_sort_key sorted_map)
  then show ?thesis
    by (simp add: sortKey_le)
qed

lemma sortBy_stable:
  "filter (\<lambda>p. f_rating p = rt \<and> f_reviewCount p = rc) (sortBy comparePlaces xs)
     = filter (\<lambda>p. f_rating p = rt \<and> f_reviewCount p = rc) xs"
proof -
  have "(\<lambda>p. f_rating p = rt \<and> f_reviewCount p = rc) = (\<lambda>p. sortKey p = (- rt, - rc))"
    by (auto simp: sortKey_def)
  then show ?thesis
    by (simp add: sortBy_sort_key sort_key_stable)
qed

lemma sortBy_mset: "mset (sortBy comparePlaces xs) = mset xs"
  by (simp add: sortBy_sort_key)

subsection \<open>The 200 response\<close>

lemma handler_Success:
  assumes "fst (handler store now apiKey https q) = Success r"
  shows "\<exists>lat' lng'. q_latitude q = Some lat' \<and> q_longitude q = Some lng' \<and>
           r_location r = (lat', lng') \<and>
           r_places r = sortBy comparePlaces (filteredPlaces apiKey https lat' lng' q) \<and>
           r_metrics r = snd (searchGroups apiKey https lat' lng'
              ((case q_radius q of None \<Rightarrow> 15 | Some x \<Rightarrow> x) * 1000)
              (typeGroups (case q_type q of
                             None \<Rightarrow> ''both''
                           | Some t \<Rightarrow> if t = [] then ''both'' else t))
              ([], \<lparr> m_apiCalls = 0, m_uniquePlaces = 0 \<rparr>))"
  using assms
  by (auto simp: handler_def filteredPlaces_def Let_def
        split: prod.splits if_splits option.splits)

lemma searchGroups_uniquePlaces:
  "m_uniquePlaces (snd (searchGroups apiKey https lat' lng' radiusMeters groups acc))
     = m_uniquePlaces (snd acc)"
  by (induction groups arbitrary: acc) (auto simp: Let_def)

text \<open>A request for restaurants at (0, 0) against the provider that lists three
  restaurants: all three pass the default filters, the best rated comes first, and the
  two that tie on both keys keep the order in which the provider listed them.\<close>

lemma demo_search:
  "adaptiveTilingSearch (Some ''key'') listingProvider 0 0 15000 [''restaurant'']
     = \<lparr> places = [toSeenPlace placeA, toSeenPlace placeB, toSeenPlace placeC],
         metrics = \<lparr> m_apiCalls = 1, m_uniquePlaces = 3 \<rparr> \<rparr>"
  by (simp add: adaptiveTilingSearch_def initialState_def tilingLoop.simps processTile_def
        searchNearby_def noApiKey_def listingProvider_def addPlace_def has_def
        placeA_def placeB_def placeC_def toSeenPlace_def)

lemma demo_response:
  "\<exists>r. fst (handler Map.empty 0 (Some ''key'') listingProvider demoQuery) = Success r \<and>
       map f_placeId (r_places r) = [''b'', ''a'', ''c''] \<and>
       map f_placeId (filteredPlaces (Some ''key'') listingProvider 0 0 demoQuery)
         = [''a'', ''b'', ''c''] \<and>
       r_location r = (0, 0) \<and>
       r_totalFound r = 3 \<and>
       m_apiCalls (r_metrics r) = 1"
  by (simp add: handler_def filteredPlaces_def checkRateLimit_def noApiKey_def demoQuery_def
        typeGroups_def demo_search formatAndFilter_def formatPlace_def sortBy_def
        comparePlaces_def toSeenPlace_def placeA_def placeB_def placeC_def Let_def)

text \<open>
  Claim C9. The places of a 200 response are ordered by rating, highest first, and
  among equal ratings by review count, highest first; places that agree on both keys
  stand in the order they had before the sort, in the list of merged, deduplicated,
  formatted and filtered places; and the sort neither drops nor adds a place.
\<close>

theorem places_sorted_stably:
  assumes "fst (handler store now apiKey https q) = Success r"
  shows "sorted_wrt (\<lambda>a b. f_rating b < f_rating a \<or>
                          (f_rating a = f_rating b \<and> f_reviewCount b \<le> f_reviewCount a))
           (r_places r) \<and>
         (\<forall>rt rc. filter (\<lambda>p. f_rating p = rt \<and> f_reviewCount p = rc) (r_places r)
                  = filter (\<lambda>p. f_rating p = rt \<and> f_reviewCount p = rc)
                      (filteredPlaces apiKey https (fst (r_location r)) (snd (r_location r)) q)) \<and>
         mset (r_places r)
           = mset (filteredPlaces apiKey https (fst (r_location r)) (snd (r_location r)) q)"
proof -
  from handler_Success[OF assms] obtain lat' lng' where
    loc: "r_location r = (lat', lng')" and
    pl: "r_places r = sortBy comparePlaces (filteredPlaces apiKey https lat' lng' q)"
    by blast
  show ?thesis
    unfolding pl loc fst_conv snd_conv
    using sortBy_sorted sortBy_stable sortBy_mset by blast
qed

theorem places_sorted_stably_witness:
  "\<exists>r. fst (handler Map.empty 0 (Some ''key'') listingProvider demoQuery) = Success r \<and>
       map f_placeId (r_places r) = [''b'', ''a'', ''c''] \<and>
       map f_placeId (filteredPlaces (Some ''key'') listingProvider 0 0 demoQuery)
         = [''a'', ''b'', ''c''] \<and>
       sorted_wrt (\<lambda>a b. f_rating b < f_rating a \<or>
                        (f_rating a = f_rating b \<and> f_reviewCount b \<le> f_reviewCount a))
         (r_places r) \<and>
       filter (\<lambda>p. f_rating p = 45 / 10 \<and> f_reviewCount p = 200) (r_places r)
         = filter (\<lambda>p. f_rating p = 45 / 10 \<and> f_reviewCount p = 200)
             (filteredPlaces (Some ''key'') listingProvider 0 0 demoQuery)"
proof -
  from demo_response obtain r where
    ok: "fst (handler Map.empty 0 (Some ''key'') listingProvider demoQuery) = Success r" and
    out: "map f_placeId (r_places r) = [''b'', ''a'', ''c'']" and
    pre: "map f_placeId (filteredPlaces (Some ''key'') listingProvider 0 0 demoQuery)
            = [''a'', ''b'', ''c'']" and
    loc: "r_location r = (0, 0)"
    by auto
  note inst = places_sorted_stably[OF ok, unfolded loc fst_conv snd_conv]
  from inst have ordered:
    "sorted_wrt (\<lambda>a b. f_rating b < f_rating a \<or>
                       (f_rating a = f_rating b \<and> f_reviewCount b \<le> f_reviewCount a))
       (r_places r)"
    by (rule conjunct1)
  from inst have "\<forall>rt rc. filter (\<lambda>p. f_rating p = rt \<and> f_reviewCount p = rc) (r_places r)
                  = filter (\<lambda>p. f_rating p = rt \<and> f_reviewCount p = rc)
                      (filteredPlaces (Some ''key'') listingProvider 0 0 demoQuery)"
    by (rule conjunct1[OF conjunct2])
  then have stable: "filter (\<lambda>p. f_rating p = 45 / 10 \<and> f_reviewCount p = 200) (r_places r)
         = filter (\<lambda>p. f_rating p = 45 / 10 \<and> f_reviewCount p = 200)
             (filteredPlaces (Some ''key'') listingProvider 0 0 demoQuery)"
    by blast
  show ?thesis
    by (intro exI[of _ r] conjI ok out pre ordered stable)
qed

text \<open>
  Claim C10. The metrics of every 200 response report \<open>uniquePlaces = 0\<close>: the total
  starts at 0 (line 237) and the loop over the groups adds up \<open>apiCalls\<close> only
  (line 242), whatever the traversals found.
\<close>

theorem uniquePlaces_always_zero:
  "fst (handler store now apiKey https q) = Success r \<Longrightarrow> m_uniquePlaces (r_metrics r) = 0"
  using handler_Success[of store now apiKey https q r]
  by (auto simp: searchGroups_uniquePlaces)

text \<open>The request of the example finds three places, and its one traversal reports
  three unique places; the response still says 0.\<close>

theorem uniquePlaces_always_zero_witness:
  "\<exists>r. fst (handler Map.empty 0 (Some ''key'') listingProvider demoQuery) = Success r \<and>
       r_totalFound r = 3 \<and>
       m_uniquePlaces (metrics (adaptiveTilingSearch (Some ''key'') listingProvider 0 0 15000
          [''restaurant''])) = 3 \<and>
       m_uniquePlaces (r_metrics r) = 0"
proof -
  from demo_response obtain r where
    ok: "fst (handler Map.empty 0 (Some ''key'') listingProvider demoQuery) = Success r" and
    found: "r_totalFound r = 3"
    by auto
  have "m_uniquePlaces (metrics (adaptiveTilingSearch (Some ''key'') listingProvider 0 0 15000
          [''restaurant''])) = 3"
    by (simp add: demo_search)
  then show ?thesis
    by (intro exI[of _ r] conjI ok found uniquePlaces_always_zero[OF ok])
qed

subsection \<open>Rejected and accepted requests\<close>

text \<open>A request whose latitude or longitude parsed to \<open>NaN\<close> gets one of the
  three early responses: no traversal is started for it.\<close>

lemma nan_coordinates_rejected:
  "q_latitude q = None \<or> q_longitude q = None \<Longrightarrow>
     fst (handler store now apiKey https q) \<in> {RateLimitExceeded, ApiKeyNotSet, InvalidCoordinates}"
  by (auto simp: handler_def Let_def split: prod.splits option.splits)

text \<open>A traversal started with a radius of at most \<open>MIN_RADIUS\<close>, negative ones
  included, queries its one tile and stops.\<close>

lemma small_radius_one_call:
  assumes "radiusMeters \<le> MIN_RADIUS"
  shows "m_apiCalls (metrics (adaptiveTilingSearch apiKey https lat' lng' radiusMeters types)) = 1"
proof -
  let ?t = "\<lparr> lat = lat', lng = lng', radius = radiusMeters, depth = 0 \<rparr>"
  let ?s1 = "processTile apiKey https types ?t [] (initialState lat' lng' radiusMeters)"
  have q: "queue ?s1 = []"
    using assms by (simp add: processTile_def Let_def split: sum.split)
  have c: "apiCalls ?s1 = 1"
    by (simp add: apiCalls_processTile initialState_def)
  have "tilingLoop apiKey https types (initialState lat' lng' radiusMeters)
          = tilingLoop apiKey https types ?s1"
    by (subst tilingLoop.simps) (simp add: initialState_def)
  also have "\<dots> = ?s1"
    using q by (subst tilingLoop.simps) simp
  finally show ?thesis
    using c by (simp add: adaptiveTilingSearch_def Let_def)
qed

text \<open>
  Claim C8 says that a request with a non-positive radius is rejected before any tile
  is scheduled. The handler checks the coordinates only: the request
  \<open>latitude=32.0853&longitude=34.7818&radius=-1\<close>, with the key configured and the
  rate limit not reached, is answered with 200 after one provider call for each of the
  two type groups, whatever the provider does.
\<close>

theorem negative_radius_not_rejected:
  "\<exists>r. fst (handler Map.empty 0 (Some ''key'') https
            \<lparr> q_latitude = Some (320853 / 10000), q_longitude = Some (347818 / 10000),
              q_radius = Some (- 1), q_type = None, q_minRating = None,
              q_minReviews = None \<rparr>) = Success r \<and>
       m_apiCalls (r_metrics r) = 2"
  by (simp add: handler_def checkRateLimit_def noApiKey_def Let_def typeGroups_def
        small_radius_one_call MIN_RADIUS_def split: prod.split)

end
